theory Spec2Isabelle
  imports Complex_Main
begin

unbundle bit_operations_syntax

section \<open>JavaScript number operations used by the generator\<close>

text \<open>
  The generator is a JavaScript class. Its numeric fields hold integers, except the frame
  rate, which may be 29.97. Integer-valued numbers are modelled as \<^typ>\<open>int\<close>, the frame
  rate as \<^typ>\<open>rat\<close> (29.97 is the rational 2997/100; the program only compares the rate
  with literals and integers and divides 1000 by four times the rate, and on the four rates
  it accepts, double arithmetic and exact arithmetic give the same answers there).

  JavaScript's bitwise operators first convert their operands to signed 32-bit integers
  (ToInt32), take the shift count modulo 32, and return a signed 32-bit result. The
  remainder operator \<^verbatim>\<open>%\<close> takes the sign of the dividend. \<^verbatim>\<open>Math.floor(a / b)\<close> on
  integers is the floor division of HOL.
\<close>

definition toInt32 :: "int \<Rightarrow> int" where
  "toInt32 x = signed_take_bit 31 x"

definition js_shl :: "int \<Rightarrow> int \<Rightarrow> int" where
  "js_shl a n = toInt32 (push_bit (nat (n mod 32)) (toInt32 a))"

definition js_sar :: "int \<Rightarrow> int \<Rightarrow> int" where
  "js_sar a n = drop_bit (nat (n mod 32)) (toInt32 a)"

definition js_or :: "int \<Rightarrow> int \<Rightarrow> int" where
  "js_or a b = toInt32 a OR toInt32 b"

definition js_and :: "int \<Rightarrow> int \<Rightarrow> int" where
  "js_and a b = toInt32 a AND toInt32 b"

definition js_rem :: "int \<Rightarrow> int \<Rightarrow> int" where
  "js_rem a b = sgn a * (\<bar>a\<bar> mod \<bar>b\<bar>)"

definition js_floor_div :: "int \<Rightarrow> int \<Rightarrow> int" where
  "js_floor_div a b = a div b"

text \<open>
  Reading an array beyond its bounds gives \<^verbatim>\<open>undefined\<close>, which the bitwise operators
  convert to 0.
\<close>

definition js_index :: "int list \<Rightarrow> int \<Rightarrow> int" where
  "js_index xs k = (if 0 \<le> k \<and> k < int (length xs) then xs ! nat k else 0)"

fun startsWith :: "string \<Rightarrow> string \<Rightarrow> bool" where
  "startsWith s [] = True"
| "startsWith [] (c # cs) = False"
| "startsWith (x # xs) (c # cs) = (x = c \<and> startsWith xs cs)"

fun includes_str :: "string \<Rightarrow> string \<Rightarrow> bool" where
  "includes_str [] pat = startsWith [] pat"
| "includes_str (x # xs) pat = (startsWith (x # xs) pat \<or> includes_str xs pat)"

section \<open>The MIDI output and the host's timers\<close>

text \<open>
  The MIDI library is outside the repository. Its output object is modelled by what the
  generator does with it: the port names it lists, the port that is open, the messages
  passed to \<^verbatim>\<open>sendMessage\<close> in order, and the number of \<^verbatim>\<open>closePort\<close> calls.
\<close>

record midi_output =
  portNames :: "string list"
  openedPort :: "nat option"
  sentMessages :: "int list list"
  closePortCalls :: nat

definition new_Output :: "string list \<Rightarrow> midi_output" where
  "new_Output names =
     \<lparr>portNames = names, openedPort = None, sentMessages = [], closePortCalls = 0\<rparr>"

definition getPortCount :: "midi_output \<Rightarrow> nat" where
  "getPortCount out = length (portNames out)"

definition getPortName :: "midi_output \<Rightarrow> nat \<Rightarrow> string" where
  "getPortName out i = (if i < length (portNames out) then portNames out ! i else [])"

definition openPort :: "nat \<Rightarrow> midi_output \<Rightarrow> midi_output" where
  "openPort i out = out\<lparr>openedPort := Some i\<rparr>"

definition sendMessage :: "int list \<Rightarrow> midi_output \<Rightarrow> midi_output" where
  "sendMessage msg out = out\<lparr>sentMessages := sentMessages out @ [msg]\<rparr>"

definition closePort :: "midi_output \<Rightarrow> midi_output" where
  "closePort out = out\<lparr>openedPort := None, closePortCalls := Suc (closePortCalls out)\<rparr>"

datatype error = Error string

text \<open>
  The fields of the class, followed by the host's table of active intervals (identifier
  and period in milliseconds) and its next fresh identifier, which \<^verbatim>\<open>setInterval\<close> and
  \<^verbatim>\<open>clearInterval\<close> act on.
\<close>

record generator =
  output' :: midi_output
  running :: bool
  frameRate :: rat
  hours :: int
  minutes :: int
  seconds :: int
  frames :: int
  quarterFrame :: int
  timer :: "nat option"
  activeIntervals :: "(nat \<times> int) list"
  nextIntervalId :: nat

definition setInterval :: "int \<Rightarrow> generator \<Rightarrow> nat \<times> generator" where
  "setInterval ms g =
     (nextIntervalId g,
      g\<lparr>activeIntervals := activeIntervals g @ [(nextIntervalId g, ms)],
        nextIntervalId := Suc (nextIntervalId g)\<rparr>)"

fun clearInterval :: "nat option \<Rightarrow> generator \<Rightarrow> generator" where
  "clearInterval None g = g"
| "clearInterval (Some t) g =
     g\<lparr>activeIntervals := filter (\<lambda>p. fst p \<noteq> t) (activeIntervals g)\<rparr>"

section \<open>The generator\<close>

text \<open>
  The constructor creates the output, looks for MadMapper's port and opens it, and sets the
  fields. \<open>scanPorts\<close> is the loop of \<^verbatim>\<open>findAndConnectToMadMapper\<close> over the port
  indices, with the loop variable \<^verbatim>\<open>madMapperPort\<close> as its accumulator; the last matching
  port wins. Console output and the handlers the constructor registers for process signals
  are not part of the model.
\<close>

function scanPorts :: "midi_output \<Rightarrow> nat \<Rightarrow> int \<Rightarrow> int" where
  "scanPorts out i madMapperPort =
     (if i < getPortCount out
      then scanPorts out (Suc i)
             (if includes_str (getPortName out i) ''MadMapper In'' then int i else madMapperPort)
      else madMapperPort)"
  by pat_completeness auto
termination
  by (relation "measure (\<lambda>(out, i, p). getPortCount out - i)") auto

declare scanPorts.simps [simp del]

definition findAndConnectToMadMapper :: "midi_output \<Rightarrow> error + midi_output" where
  "findAndConnectToMadMapper out =
     (let madMapperPort = scanPorts out 0 (- 1)
      in if madMapperPort = - 1 then Inl (Error ''MadMapper MIDI input port not found'')
         else Inr (openPort (nat madMapperPort) out))"

definition constructor :: "string list \<Rightarrow> error + generator" where
  "constructor names =
     (case findAndConnectToMadMapper (new_Output names) of
        Inl e \<Rightarrow> Inl e
      | Inr out \<Rightarrow>
          Inr \<lparr>output' = out, running = False, frameRate = 30,
               hours = 0, minutes = 0, seconds = 0, frames = 0, quarterFrame = 0,
               timer = None, activeIntervals = [], nextIntervalId = 0\<rparr>)"

definition toBCD :: "int \<Rightarrow> int" where
  "toBCD v = js_and (js_or (js_shl (js_floor_div v 10) 4) (js_rem v 10)) 0x7F"

definition rateCode :: "rat \<Rightarrow> int" where
  "rateCode r = (if r = 24 then 0 else if r = 25 then 1 else if r = 2997 / 100 then 2 else 3)"

definition fullFrame :: "generator \<Rightarrow> int list" where
  "fullFrame g =
     [0xF0, 0x7F, 0x7F, 0x01, 0x01,
      js_or (toBCD (hours g)) (js_shl (rateCode (frameRate g)) 5),
      toBCD (minutes g),
      toBCD (seconds g),
      toBCD (frames g),
      0xF7]"

definition sendFullFrame :: "generator \<Rightarrow> generator" where
  "sendFullFrame g = g\<lparr>output' := sendMessage (fullFrame g) (output' g)\<rparr>"

definition pieces :: "generator \<Rightarrow> int list" where
  "pieces g =
     [js_and (frames g) 0x0F,
      js_sar (js_and (frames g) 0xF0) 4,
      js_and (seconds g) 0x0F,
      js_sar (js_and (seconds g) 0xF0) 4,
      js_and (minutes g) 0x0F,
      js_sar (js_and (minutes g) 0xF0) 4,
      js_and (hours g) 0x0F,
      js_sar (js_and (hours g) 0xF0) 4]"

definition quarterFrameMessage :: "generator \<Rightarrow> int list" where
  "quarterFrameMessage g =
     [0xF1, js_or (js_shl (quarterFrame g) 4) (js_index (pieces g) (quarterFrame g))]"

definition sendQuarterFrame :: "generator \<Rightarrow> generator" where
  "sendQuarterFrame g =
     (let g1 = g\<lparr>output' := sendMessage (quarterFrameMessage g) (output' g)\<rparr>;
          g2 = g1\<lparr>quarterFrame := js_rem (quarterFrame g1 + 1) 8\<rparr>
      in if quarterFrame g2 = 0 then
           (let g3 = g2\<lparr>frames := frames g2 + 1\<rparr>
            in if of_int (frames g3) \<ge> frameRate g3 then
                 (let g4 = g3\<lparr>frames := 0, seconds := seconds g3 + 1\<rparr>
                  in if seconds g4 \<ge> 60 then
                       (let g5 = g4\<lparr>seconds := 0, minutes := minutes g4 + 1\<rparr>
                        in if minutes g5 \<ge> 60 then
                             (let g6 = g5\<lparr>minutes := 0, hours := hours g5 + 1\<rparr>
                              in if hours g6 \<ge> 24 then g6\<lparr>hours := 0\<rparr> else g6)
                           else g5)
                     else g4)
               else g3)
         else g2)"

definition start :: "generator \<Rightarrow> generator" where
  "start g =
     (if running g then g
      else
        (let g1 = g\<lparr>running := True\<rparr>;
             g2 = sendFullFrame g1;
             interval = \<lfloor>1000 / (frameRate g2 * 4)\<rfloor>;
             (t, g3) = setInterval interval g2
         in g3\<lparr>timer := Some t\<rparr>))"

definition stop :: "generator \<Rightarrow> generator" where
  "stop g =
     (if \<not> running g then g
      else clearInterval (timer g) (g\<lparr>running := False\<rparr>))"

definition setPosition :: "int \<Rightarrow> int \<Rightarrow> int \<Rightarrow> int \<Rightarrow> generator \<Rightarrow> generator" where
  "setPosition h m s f g =
     (let g1 = g\<lparr>hours := h, minutes := m, seconds := s, frames := f, quarterFrame := 0\<rparr>
      in if running g1 then sendFullFrame g1 else g1)"

definition validRates :: "rat list" where
  "validRates = [24, 25, 2997 / 100, 30]"

definition setFrameRate :: "rat \<Rightarrow> generator \<Rightarrow> (error + unit) \<times> generator" where
  "setFrameRate rate g =
     (if rate \<notin> set validRates
      then (Inl (Error ''Invalid frame rate. Must be 24, 25, 29.97, or 30''), g)
      else (Inr (), g\<lparr>frameRate := rate\<rparr>))"

definition close :: "generator \<Rightarrow> generator" where
  "close g = (let g1 = stop g in g1\<lparr>output' := closePort (output' g1)\<rparr>)"

section \<open>Notions of the specification\<close>

text \<open>
  The specification's packed BCD, written with the bit operations of the mathematical
  integers (no 32-bit conversion), and its table of rate codes.
\<close>

definition BCD :: "int \<Rightarrow> int" where
  "BCD v = (push_bit 4 (v div 10) OR (v mod 10)) AND 0x7F"

definition rateCodeTable :: "(rat \<times> int) list" where
  "rateCodeTable = [(24, 0), (25, 1), (2997 / 100, 2), (30, 3)]"

text \<open>The binary low and high nibble of a field, and the nibble carried by piece \<open>k\<close>.\<close>

definition lowNibble :: "int \<Rightarrow> int" where
  "lowNibble v = v mod 16"

definition highNibble :: "int \<Rightarrow> int" where
  "highNibble v = (v div 16) mod 16"

definition nibble :: "generator \<Rightarrow> nat \<Rightarrow> int" where
  "nibble g k =
     [lowNibble (frames g), highNibble (frames g),
      lowNibble (seconds g), highNibble (seconds g),
      lowNibble (minutes g), highNibble (minutes g),
      lowNibble (hours g), highNibble (hours g)] ! k"

text \<open>
  The timecode of a session, the frame rate as a whole number of frames per second (29.97
  counts as 30), and the specification's \<open>advanceFrame\<close>: a counter with moduli
  \<open>R\<close>, 60, 60 and 24, each field passing its carry on to the next. \<open>frameNumber\<close> is
  the number of frames since 00:00:00:00.
\<close>

type_synonym timecode = "int \<times> int \<times> int \<times> int"

definition timecode :: "generator \<Rightarrow> timecode" where
  "timecode g = (hours g, minutes g, seconds g, frames g)"

definition countRate :: "rat \<Rightarrow> int" where
  "countRate r = \<lceil>r\<rceil>"

fun advanceFrame :: "int \<Rightarrow> timecode \<Rightarrow> timecode" where
  "advanceFrame R (h, m, s, f) =
     (let f' = (f + 1) mod R; c1 = (f + 1) div R;
          s' = (s + c1) mod 60; c2 = (s + c1) div 60;
          m' = (m + c2) mod 60; c3 = (m + c2) div 60;
          h' = (h + c3) mod 24
      in (h', m', s', f'))"

fun frameNumber :: "int \<Rightarrow> timecode \<Rightarrow> int" where
  "frameNumber R (h, m, s, f) = ((h * 60 + m) * 60 + s) * R + f"

text \<open>
  The advance as a cascade, for any field values: frames is incremented; when it reaches the
  counting rate it is reset to 0 and seconds is incremented; seconds and minutes reaching
  60, and hours reaching 24, are reset to 0 in the same way, each reset but the last
  incrementing the next field.
\<close>

fun cascade :: "int \<Rightarrow> timecode \<Rightarrow> timecode" where
  "cascade R (h, m, s, f) =
     (if f + 1 < R then (h, m, s, f + 1)
      else if s + 1 < 60 then (h, m, s + 1, 0)
      else if m + 1 < 60 then (h, m + 1, 0, 0)
      else if h + 1 < 24 then (h + 1, 0, 0, 0)
      else (0, 0, 0, 0))"

text \<open>The data model's invariant: every field within its range.\<close>

definition normalized :: "generator \<Rightarrow> bool" where
  "normalized g \<longleftrightarrow>
     frameRate g \<in> set validRates
     \<and> 0 \<le> hours g \<and> hours g \<le> 23
     \<and> 0 \<le> minutes g \<and> minutes g \<le> 59
     \<and> 0 \<le> seconds g \<and> seconds g \<le> 59
     \<and> 0 \<le> frames g \<and> frames g \<le> countRate (frameRate g) - 1
     \<and> 0 \<le> quarterFrame g \<and> quarterFrame g \<le> 7"

text \<open>
  The error the specification calls \<open>InvalidFrameRate\<close> is the one \<open>setFrameRate\<close> throws.
\<close>

definition InvalidFrameRate :: error where
  "InvalidFrameRate = Error ''Invalid frame rate. Must be 24, 25, 29.97, or 30''"

text \<open>A port index that the constructor may connect to.\<close>

definition portMatches :: "midi_output \<Rightarrow> int \<Rightarrow> bool" where
  "portMatches out p \<longleftrightarrow>
     0 \<le> p \<and> nat p < getPortCount out
     \<and> includes_str (getPortName out (nat p)) ''MadMapper In''"

text \<open>A concrete session, for evaluating the operations on explicit inputs.\<close>

definition session :: "bool \<Rightarrow> rat \<Rightarrow> int \<Rightarrow> int \<Rightarrow> int \<Rightarrow> int \<Rightarrow> int \<Rightarrow> generator" where
  "session run r h m s f q =
     \<lparr>output' = \<lparr>portNames = [''MadMapper In''], openedPort = Some 0,
                  sentMessages = [], closePortCalls = 0\<rparr>,
      running = run, frameRate = r,
      hours = h, minutes = m, seconds = s, frames = f, quarterFrame = q,
      timer = (if run then Some 0 else None),
      activeIntervals = (if run then [(0, \<lfloor>1000 / (r * 4)\<rfloor>)] else []),
      nextIntervalId = (if run then 1 else 0)\<rparr>"

section \<open>The bitwise operators on small operands\<close>

lemma toInt32_id: "- (2 ^ 31) \<le> x \<Longrightarrow> x < 2 ^ 31 \<Longrightarrow> toInt32 x = x"
  unfolding toInt32_def by (simp add: signed_take_bit_int_eq_self)

lemma toInt32_small: "0 \<le> x \<Longrightarrow> x < 2 ^ 31 \<Longrightarrow> toInt32 x = x"
  by (rule toInt32_id) simp_all

lemma js_rem_nonneg: "0 \<le> a \<Longrightarrow> 0 < b \<Longrightarrow> js_rem a b = a mod b"
  by (cases "a = 0") (simp_all add: js_rem_def)

lemma or_bound:
  fixes x y :: int
  shows "0 \<le> x \<Longrightarrow> 0 \<le> y \<Longrightarrow> x < 2 ^ n \<Longrightarrow> y < 2 ^ n \<Longrightarrow> 0 \<le> x OR y \<and> x OR y < 2 ^ n"
  by (simp add: OR_upper)

lemma js_or_small:
  assumes "0 \<le> x" "0 \<le> y" "x < 2 ^ 31" "y < 2 ^ 31"
  shows "js_or x y = x OR y"
  using assms by (simp add: js_or_def toInt32_small)

lemma js_and_small:
  assumes "0 \<le> x" "0 \<le> y" "x < 2 ^ 31" "y < 2 ^ 31"
  shows "js_and x y = x AND y"
  using assms by (simp add: js_and_def toInt32_small)

lemma js_shl_small:
  assumes "0 \<le> x" "x < 2 ^ (31 - n)" "n \<le> 31"
  shows "js_shl x (int n) = push_bit n x"
proof -
  have le: "(2::int) ^ (31 - n) \<le> 2 ^ 31" by (rule power_increasing) simp_all
  have x31: "x < 2 ^ 31" using assms(2) le by linarith
  have "x * 2 ^ n < 2 ^ (31 - n) * 2 ^ n" using assms by simp
  also have "\<dots> = 2 ^ 31" using assms(3) by (simp flip: power_add)
  finally have "push_bit n x < 2 ^ 31" by (simp add: push_bit_eq_mult)
  moreover have "0 \<le> push_bit n x" using assms(1) by simp
  moreover have "nat (int n mod 32) = n" using assms(3) by simp
  ultimately show ?thesis using assms(1) x31 by (simp add: js_shl_def toInt32_small)
qed

section \<open>Full-frame messages\<close>

lemma toBCD_eq_BCD:
  assumes "0 \<le> v" "v \<le> 99"
  shows "toBCD v = BCD v"
proof -
  have d: "0 \<le> v div 10" "v div 10 < 2 ^ (31 - 4)" using assms by simp_all
  have shl: "js_shl (v div 10) 4 = push_bit 4 (v div 10)"
    using js_shl_small [of "v div 10" 4] d by simp
  have p: "0 \<le> push_bit 4 (v div 10)" "push_bit 4 (v div 10) < 2 ^ 31"
    using assms by (simp_all add: push_bit_eq_mult)
  have m: "0 \<le> v mod 10" "v mod 10 < 2 ^ 31"
    using pos_mod_bound [of 10 v] by simp_all
  have orr: "js_or (push_bit 4 (v div 10)) (v mod 10) = push_bit 4 (v div 10) OR (v mod 10)"
    by (rule js_or_small [OF p(1) m(1) p(2) m(2)])
  have ob: "0 \<le> push_bit 4 (v div 10) OR (v mod 10)" "push_bit 4 (v div 10) OR (v mod 10) < 2 ^ 31"
    using or_bound [OF p(1) m(1) p(2) m(2)] by simp_all
  show ?thesis
    unfolding toBCD_def BCD_def js_floor_div_def
    using assms shl orr ob by (simp add: js_rem_nonneg js_and_small)
qed

lemma BCD_bound: "0 \<le> BCD v \<and> BCD v \<le> 127"
  unfolding BCD_def by (simp add: AND_upper2)

text \<open>
  C1. For a timecode with hours in 0..23, minutes and seconds in 0..59, frames from 0 and
  below the frame rate, and a frame rate among 24, 25, 29.97 and 30 with rate code
  \<open>rc\<close> (0, 1, 2, 3 in that order), \<open>sendFullFrame\<close> changes nothing but the output, to
  which it passes exactly one message, the ten bytes
  F0 7F 7F 01 01, BCD(hours) | (rc << 5), BCD(minutes), BCD(seconds), BCD(frames), F7.
\<close>

theorem sendFullFrame_bytes:
  assumes "map_of rateCodeTable (frameRate g) = Some rc"
    and "0 \<le> hours g" "hours g \<le> 23"
    and "0 \<le> minutes g" "minutes g \<le> 59"
    and "0 \<le> seconds g" "seconds g \<le> 59"
    and "0 \<le> frames g" "of_int (frames g) < frameRate g"
  shows "sendFullFrame g =
           g\<lparr>output' := (output' g)\<lparr>sentMessages := sentMessages (output' g) @
             [[0xF0, 0x7F, 0x7F, 0x01, 0x01,
               BCD (hours g) OR push_bit 5 rc,
               BCD (minutes g), BCD (seconds g), BCD (frames g), 0xF7]]\<rparr>\<rparr>"
proof -
  have rc: "rateCode (frameRate g) = rc" "0 \<le> rc" "rc \<le> 3" "frameRate g \<le> 30"
    using assms(1) by (auto simp: rateCodeTable_def rateCode_def split: if_splits)
  have f: "frames g \<le> 99" using assms(9) rc(4) by linarith
  have shl: "js_shl rc 5 = push_bit 5 rc"
    using js_shl_small [of rc 5] rc by simp
  have pb: "0 \<le> push_bit 5 rc" "push_bit 5 rc < 2 ^ 31"
    using rc by (simp_all add: push_bit_eq_mult)
  have hb: "0 \<le> BCD (hours g)" "BCD (hours g) < 2 ^ 31"
    using BCD_bound [of "hours g"] by simp_all
  have h: "js_or (BCD (hours g)) (push_bit 5 rc) = BCD (hours g) OR push_bit 5 rc"
    by (rule js_or_small [OF hb(1) pb(1) hb(2) pb(2)])
  show ?thesis
    using assms f rc(1) shl h
    by (simp add: sendFullFrame_def sendMessage_def fullFrame_def toBCD_eq_BCD)
qed

text \<open>
  The specification's example: at 01:02:03:04 and 30 frames per second the message is
  F0 7F 7F 01 01 61 02 03 04 F7.
\<close>

theorem sendFullFrame_bytes_witness:
  "map_of rateCodeTable (frameRate (session False 30 1 2 3 4 0)) = Some 3
   \<and> sentMessages (output' (sendFullFrame (session False 30 1 2 3 4 0)))
       = [[0xF0, 0x7F, 0x7F, 0x01, 0x01, 0x61, 0x02, 0x03, 0x04, 0xF7]]"
proof -
  have r: "map_of rateCodeTable (frameRate (session False 30 1 2 3 4 0)) = Some 3"
    by (simp add: rateCodeTable_def session_def)
  show ?thesis
    using r sendFullFrame_bytes [OF r]
    by (simp add: session_def BCD_def)
qed

section \<open>Quarter-frame messages\<close>

lemma js_and_low: "js_and v 0x0F = lowNibble v"
proof -
  have "toInt32 v AND 15 = take_bit 4 (signed_take_bit 31 v)"
    by (simp add: toInt32_def take_bit_eq_mask mask_eq_exp_minus_1)
  also have "\<dots> = take_bit 4 v"
    by (simp add: take_bit_signed_take_bit)
  finally show ?thesis
    by (simp add: js_and_def lowNibble_def take_bit_eq_mod toInt32_small)
qed

lemma js_and_high: "js_sar (js_and v 0xF0) 4 = highNibble v"
proof -
  have b: "0 \<le> toInt32 v AND 240" "toInt32 v AND 240 < 2 ^ 31"
    using AND_upper2 [of 240 "toInt32 v"] by simp_all
  have m: "(240::int) = push_bit 4 (mask 4)"
    by (simp add: mask_eq_exp_minus_1 push_bit_eq_mult)
  have "drop_bit 4 (toInt32 v AND 240) = take_bit 4 (drop_bit 4 (signed_take_bit 31 v))"
    unfolding m toInt32_def by (rule bit_eqI) (auto simp: bit_simps)
  also have "\<dots> = take_bit 4 (drop_bit 4 v)"
    by (rule bit_eqI) (auto simp: bit_simps)
  finally show ?thesis
    using b by (simp add: js_sar_def js_and_def toInt32_small highNibble_def take_bit_eq_mod drop_bit_eq_div)
qed

lemma pieces_eq_nibble:
  assumes "k < 8"
  shows "js_index (pieces g) (int k) = nibble g k"
proof -
  have "pieces g = [lowNibble (frames g), highNibble (frames g),
      lowNibble (seconds g), highNibble (seconds g),
      lowNibble (minutes g), highNibble (minutes g),
      lowNibble (hours g), highNibble (hours g)]"
    by (simp add: pieces_def js_and_low js_and_high)
  then show ?thesis using assms by (simp add: js_index_def nibble_def)
qed

lemma nibble_bound:
  assumes "k < 8"
  shows "0 \<le> nibble g k \<and> nibble g k < 16"
proof -
  have "k \<in> {0, 1, 2, 3, 4, 5, 6, 7}" using assms by auto
  then show ?thesis
    by (auto simp: nibble_def lowNibble_def highNibble_def)
qed

lemma sendQuarterFrame_output:
  "output' (sendQuarterFrame g) = sendMessage (quarterFrameMessage g) (output' g)"
  by (simp add: sendQuarterFrame_def Let_def)

text \<open>
  C2. With the cursor at \<open>k\<close> in 0..7, \<open>sendQuarterFrame\<close> passes to the output exactly
  one message, the two bytes F1 and \<open>(k << 4) | nibble(k)\<close>, where \<open>nibble(k)\<close> is the
  binary low or high nibble of frames, seconds, minutes, hours for \<open>k\<close> = 0..7. The
  message does not depend on the frame rate: piece 7 carries the high nibble of the hours
  and no rate code. This holds for every integer value of the fields.
\<close>

theorem sendQuarterFrame_message:
  assumes "quarterFrame g = int k" and "k < 8"
  shows "sentMessages (output' (sendQuarterFrame g))
           = sentMessages (output' g) @ [[0xF1, push_bit 4 (int k) OR nibble g k]]
         \<and> quarterFrameMessage (g\<lparr>frameRate := r\<rparr>) = quarterFrameMessage g"
proof -
  have shl: "js_shl (int k) 4 = push_bit 4 (int k)"
    using js_shl_small [of "int k" 4] assms(2) by simp
  have pb: "0 \<le> push_bit 4 (int k)" "push_bit 4 (int k) < 2 ^ 31"
    using assms(2) by (simp_all add: push_bit_eq_mult)
  have nb: "0 \<le> nibble g k" "nibble g k < 2 ^ 31"
    using nibble_bound [OF assms(2), of g] by simp_all
  have orr: "js_or (push_bit 4 (int k)) (nibble g k) = push_bit 4 (int k) OR nibble g k"
    by (rule js_or_small [OF pb(1) nb(1) pb(2) nb(2)])
  have msg: "quarterFrameMessage g = [0xF1, push_bit 4 (int k) OR nibble g k]"
    using assms shl orr by (simp add: quarterFrameMessage_def pieces_eq_nibble)
  have indep: "quarterFrameMessage (g\<lparr>frameRate := r\<rparr>) = quarterFrameMessage g"
    by (simp add: quarterFrameMessage_def pieces_def)
  show ?thesis
    using msg indep by (simp add: sendQuarterFrame_output sendMessage_def)
qed

text \<open>Piece 7 at 23:59:58:29: the high nibble of 23 is 1, so the bytes are F1 71.\<close>

theorem sendQuarterFrame_message_witness:
  "quarterFrame (session True 30 23 59 58 29 7) = int 7 \<and> (7::nat) < 8
   \<and> sentMessages (output' (sendQuarterFrame (session True 30 23 59 58 29 7))) = [[0xF1, 0x71]]"
proof -
  have q: "quarterFrame (session True 30 23 59 58 29 7) = int 7"
    by (simp add: session_def)
  have k: "(7::nat) < 8" by simp
  show ?thesis
    using q k sendQuarterFrame_message [OF q k]
    by (simp add: session_def nibble_def highNibble_def)
qed

section \<open>The quarter-frame cycle\<close>

lemma rate_reached: "(frameRate g \<le> of_int n) = (countRate (frameRate g) \<le> n)"
  by (simp add: countRate_def ceiling_le_iff)

lemma countRate_valid:
  assumes "r \<in> set validRates"
  shows "countRate r = 24 \<or> countRate r = 25 \<or> countRate r = 30"
proof -
  have c: "\<lceil>2997 / 100 :: rat\<rceil> = 30" by (simp add: ceiling_eq_iff)
  from assms consider "r = 24" | "r = 25" | "r = 2997 / 100" | "r = 30"
    unfolding validRates_def by fastforce
  then show ?thesis
  proof cases
    case 1
    then show ?thesis by (simp add: countRate_def)
  next
    case 2
    then show ?thesis by (simp add: countRate_def)
  next
    case 3
    show ?thesis unfolding countRate_def 3 c by simp
  next
    case 4
    then show ?thesis by (simp add: countRate_def)
  qed
qed

lemma tick_inner:
  assumes "0 \<le> quarterFrame g" "quarterFrame g < 7"
  shows "sendQuarterFrame g =
           g\<lparr>output' := sendMessage (quarterFrameMessage g) (output' g),
             quarterFrame := quarterFrame g + 1\<rparr>"
  using assms by (simp add: sendQuarterFrame_def Let_def js_rem_nonneg)

lemma tick_last_cursor:
  assumes "quarterFrame g = 7"
  shows "quarterFrame (sendQuarterFrame g) = 0"
  using assms by (simp add: sendQuarterFrame_def Let_def js_rem_def)

lemma tick_last_timecode:
  assumes "normalized g" "quarterFrame g = 7"
  shows "timecode (sendQuarterFrame g) = advanceFrame (countRate (frameRate g)) (timecode g)"
proof -
  have R: "frames g + 1 \<le> countRate (frameRate g)" "0 < countRate (frameRate g)"
    using assms(1) by (simp_all add: normalized_def)
  have b: "0 \<le> hours g" "hours g \<le> 23" "0 \<le> minutes g" "minutes g \<le> 59"
    "0 \<le> seconds g" "seconds g \<le> 59" "0 \<le> frames g"
    using assms(1) by (simp_all add: normalized_def)
  show ?thesis
  proof (cases "frames g + 1 = countRate (frameRate g)")
    case True
    then show ?thesis
      using assms(2) b
      by (auto simp: sendQuarterFrame_def Let_def js_rem_def timecode_def rate_reached)
  next
    case False
    then have "frames g + 1 < countRate (frameRate g)" using R by simp
    then show ?thesis
      using assms(2) b
      by (auto simp: sendQuarterFrame_def Let_def js_rem_def timecode_def rate_reached)
  qed
qed

lemma advanceFrame_cases:
  assumes "0 \<le> h" "h \<le> 23" "0 \<le> m" "m \<le> 59" "0 \<le> s" "s \<le> 59" "0 \<le> f" "f \<le> R - 1"
  shows "advanceFrame R (h, m, s, f) =
           (if f + 1 < R then (h, m, s, f + 1)
            else if s + 1 < 60 then (h, m, s + 1, 0)
            else if m + 1 < 60 then (h, m + 1, 0, 0)
            else if h + 1 < 24 then (h + 1, 0, 0, 0)
            else (0, 0, 0, 0))"
proof (cases "f + 1 = R")
  case True
  then show ?thesis using assms by auto
next
  case False
  then have "f + 1 < R" using assms by simp
  then show ?thesis using assms by auto
qed

lemma advanceFrame_frameNumber:
  assumes "R = 24 \<or> R = 25 \<or> R = 30"
    and "0 \<le> h" "h \<le> 23" "0 \<le> m" "m \<le> 59" "0 \<le> s" "s \<le> 59" "0 \<le> f" "f \<le> R - 1"
  shows "frameNumber R (advanceFrame R (h, m, s, f))
           = (frameNumber R (h, m, s, f) + 1) mod (24 * 60 * 60 * R)"
proof -
  have c: "advanceFrame R (h, m, s, f) =
           (if f + 1 < R then (h, m, s, f + 1)
            else if s + 1 < 60 then (h, m, s + 1, 0)
            else if m + 1 < 60 then (h, m + 1, 0, 0)
            else if h + 1 < 24 then (h + 1, 0, 0, 0)
            else (0, 0, 0, 0))"
    by (rule advanceFrame_cases [OF assms(2-9)])
  show ?thesis
    unfolding c using assms by (elim disjE) (auto simp: mod_pos_pos_trivial)
qed

lemma ticks_prefix:
  assumes "quarterFrame g = 0" "j \<le> 7"
  shows "quarterFrame ((sendQuarterFrame ^^ j) g) = int j
         \<and> timecode ((sendQuarterFrame ^^ j) g) = timecode g
         \<and> frameRate ((sendQuarterFrame ^^ j) g) = frameRate g"
  using assms(2)
proof (induction j)
  case 0
  then show ?case using assms(1) by simp
next
  case (Suc j)
  then have ih: "quarterFrame ((sendQuarterFrame ^^ j) g) = int j"
    "timecode ((sendQuarterFrame ^^ j) g) = timecode g"
    "frameRate ((sendQuarterFrame ^^ j) g) = frameRate g"
    by simp_all
  have "0 \<le> quarterFrame ((sendQuarterFrame ^^ j) g)" "quarterFrame ((sendQuarterFrame ^^ j) g) < 7"
    using ih(1) Suc.prems by simp_all
  from tick_inner [OF this] ih show ?case
    by (simp add: timecode_def)
qed

lemma tick_last_cascade:
  assumes "quarterFrame g = 7"
  shows "timecode (sendQuarterFrame g) = cascade (countRate (frameRate g)) (timecode g)"
  using assms
  by (auto simp: sendQuarterFrame_def Let_def js_rem_def timecode_def rate_reached)

text \<open>
  C3. From every session state with the cursor at 0, whatever its fields and frame rate,
  the first seven calls of \<open>sendQuarterFrame\<close> take the cursor through 1, ..., 7 and leave
  the timecode alone (after \<open>j < 8\<close> calls the cursor is \<open>j\<close>); the eighth call returns
  the cursor to 0 and advances the timecode once, by the cascade at the counting rate (29.97
  counts as 30): frames is incremented and, on reaching the rate, reset to 0 with a carry
  into seconds, minutes and hours, reset at 60, 60 and 24. From 23:59:59 at the last frame
  of the second the result is 00:00:00:00. On a normalized session the cascade is the
  counter with moduli rate, 60, 60 and 24, and the frame number grows by one modulo the
  frames of a day.
\<close>

theorem tick_cycle:
  assumes "quarterFrame g = 0"
  shows "(\<forall>j<8. quarterFrame ((sendQuarterFrame ^^ j) g) = int j
                 \<and> timecode ((sendQuarterFrame ^^ j) g) = timecode g)
         \<and> quarterFrame ((sendQuarterFrame ^^ 8) g) = 0
         \<and> timecode ((sendQuarterFrame ^^ 8) g)
             = cascade (countRate (frameRate g)) (timecode g)
         \<and> (timecode g = (23, 59, 59, countRate (frameRate g) - 1)
              \<longrightarrow> timecode ((sendQuarterFrame ^^ 8) g) = (0, 0, 0, 0))
         \<and> (normalized g \<longrightarrow>
               timecode ((sendQuarterFrame ^^ 8) g)
                 = advanceFrame (countRate (frameRate g)) (timecode g)
             \<and> frameNumber (countRate (frameRate g)) (timecode ((sendQuarterFrame ^^ 8) g))
                 = (frameNumber (countRate (frameRate g)) (timecode g) + 1)
                     mod (24 * 60 * 60 * countRate (frameRate g)))"
proof -
  let ?g7 = "(sendQuarterFrame ^^ 7) g"
  let ?g8 = "(sendQuarterFrame ^^ 8) g"
  let ?R = "countRate (frameRate g)"
  have pre: "\<And>j. j \<le> 7 \<Longrightarrow> quarterFrame ((sendQuarterFrame ^^ j) g) = int j
         \<and> timecode ((sendQuarterFrame ^^ j) g) = timecode g
         \<and> frameRate ((sendQuarterFrame ^^ j) g) = frameRate g"
    by (rule ticks_prefix [OF assms])
  have g7: "quarterFrame ?g7 = 7" "timecode ?g7 = timecode g" "frameRate ?g7 = frameRate g"
    using pre [of 7] by simp_all
  have eight: "?g8 = sendQuarterFrame ?g7"
    by (simp add: numeral_eq_Suc)
  have cur: "quarterFrame ?g8 = 0"
    unfolding eight by (rule tick_last_cursor [OF g7(1)])
  have casc: "timecode ?g8 = cascade ?R (timecode g)"
    unfolding eight using tick_last_cascade [OF g7(1)] g7 by simp
  have wrap: "timecode g = (23, 59, 59, ?R - 1) \<longrightarrow> timecode ?g8 = (0, 0, 0, 0)"
    using casc by auto
  have norm: "timecode ?g8 = advanceFrame ?R (timecode g)
      \<and> frameNumber ?R (timecode ?g8)
          = (frameNumber ?R (timecode g) + 1) mod (24 * 60 * 60 * ?R)" if n: "normalized g"
  proof -
    have n7: "normalized ?g7"
      using n g7 by (simp add: normalized_def timecode_def)
    have adv: "timecode ?g8 = advanceFrame ?R (timecode g)"
      unfolding eight using tick_last_timecode [OF n7 g7(1)] g7 by simp
    have R: "?R = 24 \<or> ?R = 25 \<or> ?R = 30"
      using n by (simp add: normalized_def countRate_valid)
    have b: "0 \<le> hours g" "hours g \<le> 23" "0 \<le> minutes g" "minutes g \<le> 59"
      "0 \<le> seconds g" "seconds g \<le> 59" "0 \<le> frames g" "frames g \<le> ?R - 1"
      using n by (simp_all add: normalized_def)
    have tc: "timecode g = (hours g, minutes g, seconds g, frames g)"
      by (simp add: timecode_def)
    have num: "frameNumber ?R (timecode ?g8)
               = (frameNumber ?R (timecode g) + 1) mod (24 * 60 * 60 * ?R)"
      by (simp only: adv tc advanceFrame_frameNumber [OF R b])
    show ?thesis using adv num by blast
  qed
  have first: "\<forall>j<8. quarterFrame ((sendQuarterFrame ^^ j) g) = int j
                 \<and> timecode ((sendQuarterFrame ^^ j) g) = timecode g"
    using pre by simp
  show ?thesis
    using first cur casc wrap norm by blast
qed

text \<open>
  At 24 frames per second from 00:00:00:29, a state left by lowering the rate: cursor 5
  after five calls, 00:00:01:00 after eight. At 29.97 frames per second from 23:59:59:29:
  midnight after eight calls.
\<close>

theorem tick_cycle_witness:
  "quarterFrame (session True 24 0 0 0 29 0) = 0
   \<and> (5::nat) < 8
   \<and> quarterFrame ((sendQuarterFrame ^^ 5) (session True 24 0 0 0 29 0)) = 5
   \<and> timecode ((sendQuarterFrame ^^ 5) (session True 24 0 0 0 29 0)) = (0, 0, 0, 29)
   \<and> quarterFrame ((sendQuarterFrame ^^ 8) (session True 24 0 0 0 29 0)) = 0
   \<and> timecode ((sendQuarterFrame ^^ 8) (session True 24 0 0 0 29 0)) = (0, 0, 1, 0)
   \<and> quarterFrame (session True (2997 / 100) 23 59 59 29 0) = 0
   \<and> normalized (session True (2997 / 100) 23 59 59 29 0)
   \<and> timecode (session True (2997 / 100) 23 59 59 29 0)
       = (23, 59, 59, countRate (frameRate (session True (2997 / 100) 23 59 59 29 0)) - 1)
   \<and> timecode ((sendQuarterFrame ^^ 8) (session True (2997 / 100) 23 59 59 29 0))
       = (0, 0, 0, 0)
   \<and> frameNumber 30 (timecode ((sendQuarterFrame ^^ 8) (session True (2997 / 100) 23 59 59 29 0)))
       = (frameNumber 30 (23, 59, 59, 29) + 1) mod (24 * 60 * 60 * 30)"
proof -
  let ?a = "session True 24 0 0 0 29 0"
  let ?b = "session True (2997 / 100) 23 59 59 29 0"
  have c: "countRate (2997 / 100) = 30" "countRate 24 = 24"
    by (simp_all add: countRate_def ceiling_eq_iff)
  have v: "(2997 / 100 :: rat) \<in> set validRates"
    by (simp add: validRates_def)
  have qa: "quarterFrame ?a = 0" and qb: "quarterFrame ?b = 0"
    by (simp_all add: session_def)
  have ta: "timecode ?a = (0, 0, 0, 29)" "frameRate ?a = 24"
    by (simp_all add: session_def timecode_def)
  have tb: "timecode ?b = (23, 59, 59, 29)" "frameRate ?b = 2997 / 100"
    by (simp_all add: session_def timecode_def)
  have n: "normalized ?b"
    using v by (simp add: normalized_def session_def c)
  show ?thesis
    using qa qb n tick_cycle [OF qa] tick_cycle [OF qb]
    by (simp add: ta tb c)
qed

section \<open>Normalization\<close>

lemma sendQuarterFrame_frameRate: "frameRate (sendQuarterFrame g) = frameRate g"
  by (simp add: sendQuarterFrame_def Let_def)

lemma normalized_sendQuarterFrame:
  assumes "normalized g"
  shows "normalized (sendQuarterFrame g)"
proof (cases "quarterFrame g = 7")
  case True
  let ?R = "countRate (frameRate g)"
  have b: "0 \<le> hours g" "hours g \<le> 23" "0 \<le> minutes g" "minutes g \<le> 59"
    "0 \<le> seconds g" "seconds g \<le> 59" "0 \<le> frames g" "frames g \<le> ?R - 1"
    using assms by (simp_all add: normalized_def)
  have tc: "timecode g = (hours g, minutes g, seconds g, frames g)"
    by (simp add: timecode_def)
  have "timecode (sendQuarterFrame g) = advanceFrame ?R (timecode g)"
    by (rule tick_last_timecode [OF assms True])
  then have t: "timecode (sendQuarterFrame g) =
           (if frames g + 1 < ?R then (hours g, minutes g, seconds g, frames g + 1)
            else if seconds g + 1 < 60 then (hours g, minutes g, seconds g + 1, 0)
            else if minutes g + 1 < 60 then (hours g, minutes g + 1, 0, 0)
            else if hours g + 1 < 24 then (hours g + 1, 0, 0, 0)
            else (0, 0, 0, 0))"
    by (simp only: tc advanceFrame_cases [OF b])
  have v: "frameRate g \<in> set validRates" using assms by (simp add: normalized_def)
  show ?thesis
    using t b v tick_last_cursor [OF True]
    by (auto simp: normalized_def timecode_def sendQuarterFrame_frameRate split: if_splits)
next
  case False
  then have q: "0 \<le> quarterFrame g" "quarterFrame g < 7"
    using assms by (simp_all add: normalized_def)
  show ?thesis
    using assms q by (simp add: tick_inner [OF q] normalized_def)
qed

lemma normalized_start: "normalized g \<Longrightarrow> normalized (start g)"
  by (simp add: start_def Let_def sendFullFrame_def setInterval_def normalized_def)

lemma normalized_stop: "normalized g \<Longrightarrow> normalized (stop g)"
  by (cases "timer g") (simp_all add: stop_def normalized_def)

lemma normalized_setPosition:
  assumes "normalized g"
    and "0 \<le> h" "h < 24" "0 \<le> m" "m < 60" "0 \<le> s" "s < 60" "0 \<le> f" "of_int f < frameRate g"
  shows "normalized (setPosition h m s f g)"
proof -
  have "f < countRate (frameRate g)"
    using assms(9) by (simp add: countRate_def less_ceiling_iff)
  then show ?thesis
    using assms by (simp add: setPosition_def Let_def sendFullFrame_def normalized_def)
qed

lemma setFrameRate_valid:
  assumes "r \<in> set validRates"
  shows "setFrameRate r g = (Inr (), g\<lparr>frameRate := r\<rparr>)"
  using assms by (simp add: setFrameRate_def)

text \<open>
  C4, as amended. From a normalized session, \<open>sendQuarterFrame\<close>, \<open>start\<close>, \<open>stop\<close>
  and, under its documented precondition, \<open>setPosition\<close> lead to a normalized session
  again, the hours wrapping to 0 at 24. \<open>setFrameRate\<close> with a valid rate stores the rate
  and leaves timecode and cursor as they are, so the session is normalized afterwards
  exactly when the frames are below the new counting rate.
\<close>

theorem normalized_preserved:
  assumes "normalized g"
  shows "normalized (sendQuarterFrame g) \<and> normalized (start g) \<and> normalized (stop g)
    \<and> (0 \<le> h \<and> h < 24 \<and> 0 \<le> m \<and> m < 60 \<and> 0 \<le> s \<and> s < 60 \<and> 0 \<le> f \<and> of_int f < frameRate g
         \<longrightarrow> normalized (setPosition h m s f g))
    \<and> (r \<in> set validRates
         \<longrightarrow> timecode (snd (setFrameRate r g)) = timecode g
           \<and> quarterFrame (snd (setFrameRate r g)) = quarterFrame g
           \<and> frameRate (snd (setFrameRate r g)) = r
           \<and> (normalized (snd (setFrameRate r g)) \<longleftrightarrow> frames g \<le> countRate r - 1))
    \<and> (timecode g = (23, 59, 59, countRate (frameRate g) - 1) \<and> quarterFrame g = 7
         \<longrightarrow> timecode (sendQuarterFrame g) = (0, 0, 0, 0))"
proof -
  have fr: "r \<in> set validRates
         \<longrightarrow> timecode (snd (setFrameRate r g)) = timecode g
           \<and> quarterFrame (snd (setFrameRate r g)) = quarterFrame g
           \<and> frameRate (snd (setFrameRate r g)) = r
           \<and> (normalized (snd (setFrameRate r g)) \<longleftrightarrow> frames g \<le> countRate r - 1)"
    using assms by (auto simp: setFrameRate_valid normalized_def timecode_def)
  have R: "countRate (frameRate g) = 24 \<or> countRate (frameRate g) = 25 \<or> countRate (frameRate g) = 30"
    using assms by (simp add: normalized_def countRate_valid)
  have wrap: "timecode g = (23, 59, 59, countRate (frameRate g) - 1) \<and> quarterFrame g = 7
         \<longrightarrow> timecode (sendQuarterFrame g) = (0, 0, 0, 0)"
    using R tick_last_timecode [OF assms] by auto
  show ?thesis
    using normalized_sendQuarterFrame [OF assms] normalized_start [OF assms]
      normalized_stop [OF assms] normalized_setPosition [OF assms, of h m s f] fr wrap
    by blast
qed

text \<open>
  C4 as first stated fails for \<open>setFrameRate\<close>: at 00:00:00:29 and 30 frames per second
  the session is normalized, \<open>setFrameRate(24)\<close> succeeds, and frames is still 29, beyond
  the range 0..23 of the new rate.
\<close>

theorem setFrameRate_breaks_normalized:
  "normalized (session False 30 0 0 0 29 0)
   \<and> 24 \<in> set validRates
   \<and> fst (setFrameRate 24 (session False 30 0 0 0 29 0)) = Inr ()
   \<and> frames (snd (setFrameRate 24 (session False 30 0 0 0 29 0))) = 29
   \<and> \<not> normalized (snd (setFrameRate 24 (session False 30 0 0 0 29 0)))"
  by (simp add: setFrameRate_def validRates_def normalized_def session_def countRate_def)

text \<open>The amended invariant at 23:59:59:29, cursor 7, 30 frames per second, running.\<close>

theorem normalized_preserved_witness:
  "normalized (session True 30 23 59 59 29 7)
   \<and> normalized (sendQuarterFrame (session True 30 23 59 59 29 7))
   \<and> normalized (start (session True 30 23 59 59 29 7))
   \<and> normalized (stop (session True 30 23 59 59 29 7))
   \<and> (0 \<le> (1::int) \<and> (1::int) < 24 \<and> 0 \<le> (2::int) \<and> (2::int) < 60 \<and> 0 \<le> (3::int) \<and> (3::int) < 60
       \<and> 0 \<le> (4::int) \<and> of_int 4 < frameRate (session True 30 23 59 59 29 7))
   \<and> normalized (setPosition 1 2 3 4 (session True 30 23 59 59 29 7))
   \<and> 2997 / 100 \<in> set validRates
   \<and> normalized (snd (setFrameRate (2997 / 100) (session True 30 23 59 59 29 7)))
   \<and> timecode (session True 30 23 59 59 29 7)
       = (23, 59, 59, countRate (frameRate (session True 30 23 59 59 29 7)) - 1)
   \<and> quarterFrame (session True 30 23 59 59 29 7) = 7
   \<and> timecode (sendQuarterFrame (session True 30 23 59 59 29 7)) = (0, 0, 0, 0)"
proof -
  have c: "countRate (2997 / 100) = 30" "countRate 30 = 30"
    by (simp_all add: countRate_def ceiling_eq_iff)
  have v: "(2997 / 100 :: rat) \<in> set validRates" "(30 :: rat) \<in> set validRates"
    by (simp_all add: validRates_def)
  have e: "frameRate (session True 30 23 59 59 29 7) = 30"
    "timecode (session True 30 23 59 59 29 7) = (23, 59, 59, 29)"
    "quarterFrame (session True 30 23 59 59 29 7) = 7"
    "frames (session True 30 23 59 59 29 7) = 29"
    by (simp_all add: session_def timecode_def)
  have n: "normalized (session True 30 23 59 59 29 7)"
    using v(2) by (simp add: normalized_def session_def c)
  show ?thesis
    using n v(1) normalized_preserved [OF n, of 1 2 3 4 "2997 / 100"]
    by (simp add: e c)
qed

section \<open>Starting\<close>

lemma start_stopped:
  assumes "\<not> running g"
  shows "start g =
           g\<lparr>output' := sendMessage (fullFrame g) (output' g),
             running := True,
             timer := Some (nextIntervalId g),
             activeIntervals := activeIntervals g @ [(nextIntervalId g, \<lfloor>1000 / (frameRate g * 4)\<rfloor>)],
             nextIntervalId := Suc (nextIntervalId g)\<rparr>"
  using assms
  by (simp add: start_def Let_def sendFullFrame_def setInterval_def fullFrame_def)

lemma interval_values:
  "\<lfloor>1000 / (24 * 4 :: rat)\<rfloor> = 10"
  "\<lfloor>1000 / (25 * 4 :: rat)\<rfloor> = 10"
  "\<lfloor>1000 / (2997 / 100 * 4 :: rat)\<rfloor> = 8"
  "\<lfloor>1000 / (30 * 4 :: rat)\<rfloor> = 8"
  by (simp_all add: floor_eq_iff)

lemma start_running: "running g \<Longrightarrow> start g = g"
  by (simp add: start_def)

text \<open>
  C5. On a stopped session \<open>start\<close> marks the session running, passes exactly one
  message to the output, the full frame of the current position, and schedules exactly one
  interval, of \<open>floor(1000 / (frameRate * 4))\<close> milliseconds, which it keeps as its timer;
  a second \<open>start\<close> changes nothing. On a running session \<open>start\<close> changes nothing.
\<close>

theorem start_idempotent:
  "(\<not> running g \<longrightarrow>
       running (start g)
     \<and> sentMessages (output' (start g)) = sentMessages (output' g) @ [fullFrame g]
     \<and> activeIntervals (start g)
         = activeIntervals g @ [(nextIntervalId g, \<lfloor>1000 / (frameRate g * 4)\<rfloor>)]
     \<and> timer (start g) = Some (nextIntervalId g)
     \<and> start (start g) = start g)
   \<and> (running g \<longrightarrow> start g = g)"
proof -
  have "running (start g)" if "\<not> running g"
    using that by (simp add: start_stopped)
  then show ?thesis
    by (auto simp: start_stopped start_running sendMessage_def)
qed

text \<open>At 01:02:03:04 and 30 frames per second: one full frame, one interval of 8 ms.\<close>

theorem start_idempotent_witness:
  "\<not> running (session False 30 1 2 3 4 0)
   \<and> running (start (session False 30 1 2 3 4 0))
   \<and> sentMessages (output' (start (session False 30 1 2 3 4 0)))
       = [[0xF0, 0x7F, 0x7F, 0x01, 0x01, 0x61, 0x02, 0x03, 0x04, 0xF7]]
   \<and> activeIntervals (start (session False 30 1 2 3 4 0)) = [(0, 8)]
   \<and> start (start (session False 30 1 2 3 4 0)) = start (session False 30 1 2 3 4 0)
   \<and> running (session True 30 1 2 3 4 0)
   \<and> start (session True 30 1 2 3 4 0) = session True 30 1 2 3 4 0"
proof -
  have s: "\<not> running (session False 30 1 2 3 4 0)" "running (session True 30 1 2 3 4 0)"
    by (simp_all add: session_def)
  have ff: "fullFrame (session False 30 1 2 3 4 0)
              = [0xF0, 0x7F, 0x7F, 0x01, 0x01, 0x61, 0x02, 0x03, 0x04, 0xF7]"
    by (simp add: session_def fullFrame_def toBCD_eq_BCD BCD_def rateCode_def
        js_or_def js_shl_def toInt32_def)
  have e: "sentMessages (output' (session False 30 1 2 3 4 0)) = []"
    "activeIntervals (session False 30 1 2 3 4 0) = []"
    "nextIntervalId (session False 30 1 2 3 4 0) = 0"
    "frameRate (session False 30 1 2 3 4 0) = 30"
    by (simp_all add: session_def)
  have fl: "\<lfloor>25 / 3 :: rat\<rfloor> = 8"
    by (simp add: floor_eq_iff)
  show ?thesis
    using s start_idempotent [of "session False 30 1 2 3 4 0"]
      start_idempotent [of "session True 30 1 2 3 4 0"]
    by (simp add: ff e fl)
qed

section \<open>Repositioning\<close>

text \<open>
  C6. After \<open>setPosition(h, m, s, f)\<close> the timecode is \<open>(h, m, s, f)\<close> and the cursor is
  0, whatever they were before. A running session passes exactly one message to the output,
  the full frame of the new position; a stopped session passes none. The running flag, the
  frame rate and the scheduled intervals stay as they are.
\<close>

theorem setPosition_effect:
  "timecode (setPosition h m s f g) = (h, m, s, f)
   \<and> quarterFrame (setPosition h m s f g) = 0
   \<and> (running g \<longrightarrow>
        sentMessages (output' (setPosition h m s f g))
          = sentMessages (output' g)
              @ [fullFrame (g\<lparr>hours := h, minutes := m, seconds := s, frames := f\<rparr>)])
   \<and> (\<not> running g \<longrightarrow>
        sentMessages (output' (setPosition h m s f g)) = sentMessages (output' g))
   \<and> running (setPosition h m s f g) = running g
   \<and> frameRate (setPosition h m s f g) = frameRate g
   \<and> activeIntervals (setPosition h m s f g) = activeIntervals g"
  by (simp add: setPosition_def Let_def sendFullFrame_def sendMessage_def timecode_def
      fullFrame_def)

text \<open>From 09:08:07:06 with the cursor at 5, running and stopped.\<close>

theorem setPosition_effect_witness:
  "running (session True 30 9 8 7 6 5)
   \<and> timecode (setPosition 1 2 3 4 (session True 30 9 8 7 6 5)) = (1, 2, 3, 4)
   \<and> quarterFrame (setPosition 1 2 3 4 (session True 30 9 8 7 6 5)) = 0
   \<and> sentMessages (output' (setPosition 1 2 3 4 (session True 30 9 8 7 6 5)))
       = [[0xF0, 0x7F, 0x7F, 0x01, 0x01, 0x61, 0x02, 0x03, 0x04, 0xF7]]
   \<and> \<not> running (session False 30 9 8 7 6 5)
   \<and> quarterFrame (setPosition 1 2 3 4 (session False 30 9 8 7 6 5)) = 0
   \<and> sentMessages (output' (setPosition 1 2 3 4 (session False 30 9 8 7 6 5))) = []"
proof -
  have s: "running (session True 30 9 8 7 6 5)" "\<not> running (session False 30 9 8 7 6 5)"
    by (simp_all add: session_def)
  have ff: "fullFrame (session True 30 9 8 7 6 5\<lparr>hours := 1, minutes := 2, seconds := 3, frames := 4\<rparr>)
              = [0xF0, 0x7F, 0x7F, 0x01, 0x01, 0x61, 0x02, 0x03, 0x04, 0xF7]"
    by (simp add: session_def fullFrame_def toBCD_eq_BCD BCD_def rateCode_def
        js_or_def js_shl_def toInt32_def)
  have e: "sentMessages (output' (session True 30 9 8 7 6 5)) = []"
    "sentMessages (output' (session False 30 9 8 7 6 5)) = []"
    by (simp_all add: session_def)
  show ?thesis
    using s setPosition_effect [of 1 2 3 4 "session True 30 9 8 7 6 5"]
      setPosition_effect [of 1 2 3 4 "session False 30 9 8 7 6 5"]
    by (simp add: ff e)
qed

section \<open>Stopping\<close>

lemma stop_stopped: "\<not> running g \<Longrightarrow> stop g = g"
  by (simp add: stop_def)

lemma stop_fields:
  "running (stop g) = False"
  "hours (stop g) = hours g" "minutes (stop g) = minutes g"
  "seconds (stop g) = seconds g" "frames (stop g) = frames g"
  "quarterFrame (stop g) = quarterFrame g" "frameRate (stop g) = frameRate g"
  "output' (stop g) = output' g" "timer (stop g) = timer g"
  "nextIntervalId (stop g) = nextIntervalId g"
  by (cases "timer g"; simp add: stop_def)+

lemma stop_intervals:
  "activeIntervals (stop g) =
     (if running g then
        (case timer g of None \<Rightarrow> activeIntervals g
         | Some t \<Rightarrow> filter (\<lambda>p. fst p \<noteq> t) (activeIntervals g))
      else activeIntervals g)"
  by (cases "timer g") (simp_all add: stop_def)

lemma fullFrame_stop: "fullFrame (stop g) = fullFrame g"
  by (simp add: fullFrame_def stop_fields)

text \<open>
  C7. \<open>stop\<close> is idempotent and changes nothing on a stopped session. It marks the
  session stopped, removes the session's timer from the scheduled intervals and adds none,
  and leaves timecode, cursor, frame rate and output as they are. A following \<open>start\<close>
  runs again from the same timecode and cursor and passes one message to the output, the
  full frame of that timecode.
\<close>

theorem stop_effect:
  "stop (stop g) = stop g
   \<and> (\<not> running g \<longrightarrow> stop g = g)
   \<and> \<not> running (stop g)
   \<and> (running g \<and> timer g = Some t \<longrightarrow> t \<notin> fst ` set (activeIntervals (stop g)))
   \<and> set (activeIntervals (stop g)) \<subseteq> set (activeIntervals g)
   \<and> timecode (stop g) = timecode g
   \<and> quarterFrame (stop g) = quarterFrame g
   \<and> frameRate (stop g) = frameRate g
   \<and> output' (stop g) = output' g
   \<and> running (start (stop g))
   \<and> timecode (start (stop g)) = timecode g
   \<and> quarterFrame (start (stop g)) = quarterFrame g
   \<and> sentMessages (output' (start (stop g))) = sentMessages (output' g) @ [fullFrame g]"
proof -
  have ns: "\<not> running (stop g)" by (simp add: stop_fields)
  have idem: "stop (stop g) = stop g" by (rule stop_stopped [OF ns])
  have canc: "running g \<and> timer g = Some t \<longrightarrow> t \<notin> fst ` set (activeIntervals (stop g))"
    by (auto simp: stop_intervals)
  have sub: "set (activeIntervals (stop g)) \<subseteq> set (activeIntervals g)"
    by (auto simp: stop_intervals split: option.splits)
  have st: "running (start (stop g))"
    "timecode (start (stop g)) = timecode g"
    "quarterFrame (start (stop g)) = quarterFrame g"
    "sentMessages (output' (start (stop g))) = sentMessages (output' g) @ [fullFrame g]"
    by (simp_all add: start_stopped [OF ns] timecode_def stop_fields fullFrame_stop sendMessage_def)
  show ?thesis
    using idem canc sub st
    by (simp add: stop_stopped stop_fields timecode_def)
qed

text \<open>Started, stopped and started again at 01:02:03:04 with the cursor at 5.\<close>

theorem stop_effect_witness:
  "running (start (session False 30 1 2 3 4 5))
   \<and> timer (start (session False 30 1 2 3 4 5)) = Some 0
   \<and> activeIntervals (start (session False 30 1 2 3 4 5)) = [(0, 8)]
   \<and> 0 \<notin> fst ` set (activeIntervals (stop (start (session False 30 1 2 3 4 5))))
   \<and> \<not> running (stop (start (session False 30 1 2 3 4 5)))
   \<and> \<not> running (session False 30 1 2 3 4 5)
   \<and> stop (session False 30 1 2 3 4 5) = session False 30 1 2 3 4 5
   \<and> timecode (start (stop (start (session False 30 1 2 3 4 5)))) = (1, 2, 3, 4)
   \<and> quarterFrame (start (stop (start (session False 30 1 2 3 4 5)))) = 5"
proof -
  let ?g = "session False 30 1 2 3 4 5"
  have s: "\<not> running ?g" by (simp add: session_def)
  have e: "activeIntervals ?g = []" "nextIntervalId ?g = 0" "frameRate ?g = 30"
    "timecode ?g = (1, 2, 3, 4)" "quarterFrame ?g = 5"
    by (simp_all add: session_def timecode_def)
  have fl: "\<lfloor>25 / 3 :: rat\<rfloor> = 8"
    by (simp add: floor_eq_iff)
  have r: "running (start ?g)" "timer (start ?g) = Some 0" "activeIntervals (start ?g) = [(0, 8)]"
    "timecode (start ?g) = (1, 2, 3, 4)" "quarterFrame (start ?g) = 5"
    using e by (simp_all add: start_stopped [OF s] fl timecode_def)
  have rt: "running (start ?g) \<and> timer (start ?g) = Some 0" using r by simp
  show ?thesis
    using s r rt stop_effect [of "start ?g" 0] stop_effect [of ?g 0]
    by simp
qed

section \<open>Changing the frame rate\<close>

text \<open>
  C8. \<open>setFrameRate(r)\<close> succeeds exactly when \<open>r\<close> is 24, 25, 29.97 or 30; it then
  stores \<open>r\<close> as the frame rate and changes nothing else. For every other rate it fails
  with \<open>InvalidFrameRate\<close> and the session is as before.
\<close>

theorem setFrameRate_result:
  "(r \<in> {24, 25, 2997 / 100, 30} \<longrightarrow> setFrameRate r g = (Inr (), g\<lparr>frameRate := r\<rparr>))
   \<and> (r \<notin> {24, 25, 2997 / 100, 30} \<longrightarrow> setFrameRate r g = (Inl InvalidFrameRate, g))"
  unfolding setFrameRate_def validRates_def InvalidFrameRate_def by simp

text \<open>The specification's examples: 29.97 is accepted, 28 is rejected.\<close>

theorem setFrameRate_result_witness:
  "(2997 / 100 :: rat) \<in> {24, 25, 2997 / 100, 30}
   \<and> setFrameRate (2997 / 100) (session True 30 1 2 3 4 5)
       = (Inr (), session True (2997 / 100) 1 2 3 4 5\<lparr>activeIntervals := [(0, 8)]\<rparr>)
   \<and> (28 :: rat) \<notin> {24, 25, 2997 / 100, 30}
   \<and> setFrameRate 28 (session True 30 1 2 3 4 5)
       = (Inl InvalidFrameRate, session True 30 1 2 3 4 5)"
proof -
  have a: "(2997 / 100 :: rat) \<in> {24, 25, 2997 / 100, 30}" by simp
  have b: "(28 :: rat) \<notin> {24, 25, 2997 / 100, 30}" by simp
  have fl: "\<lfloor>25 / 3 :: rat\<rfloor> = 8" "\<lfloor>25000 / 2997 :: rat\<rfloor> = 8"
    by (simp_all add: floor_eq_iff)
  have c: "session True 30 1 2 3 4 5\<lparr>frameRate := 2997 / 100\<rparr>
             = session True (2997 / 100) 1 2 3 4 5\<lparr>activeIntervals := [(0, 8)]\<rparr>"
    by (simp add: session_def fl)
  show ?thesis
    using a b setFrameRate_result [of "2997 / 100" "session True 30 1 2 3 4 5"]
      setFrameRate_result [of 28 "session True 30 1 2 3 4 5"]
    by (simp only: c simp_thms)
qed

section \<open>Closing\<close>

lemma close_fields:
  "running (close g) = False"
  "openedPort (output' (close g)) = None"
  "closePortCalls (output' (close g)) = Suc (closePortCalls (output' g))"
  "sentMessages (output' (close g)) = sentMessages (output' g)"
  "timecode (close g) = timecode g"
  "quarterFrame (close g) = quarterFrame g"
  "frameRate (close g) = frameRate g"
  by (simp_all add: close_def Let_def closePort_def stop_fields timecode_def)

lemma close_calls: "closePortCalls (output' ((close ^^ n) g)) = closePortCalls (output' g) + n"
  by (induction n) (simp_all add: close_fields)

lemma close_again:
  assumes "\<not> running g"
  shows "close g = g\<lparr>output' := (output' g)\<lparr>openedPort := None,
                       closePortCalls := Suc (closePortCalls (output' g))\<rparr>\<rparr>"
  using assms by (simp add: close_def Let_def closePort_def stop_stopped)

text \<open>
  C9, as amended. \<open>close\<close> stops the session (its timer is no longer scheduled) and
  calls \<open>closePort\<close>, leaving the port closed; it can be called again, and every call
  calls \<open>closePort\<close> once more: \<open>n\<close> calls of \<open>close\<close> make \<open>n\<close> calls of
  \<open>closePort\<close>, and a second \<open>close\<close> changes nothing but that count.
\<close>

theorem close_effect:
  "\<not> running (close g)
   \<and> (running g \<and> timer g = Some t \<longrightarrow> t \<notin> fst ` set (activeIntervals (close g)))
   \<and> openedPort (output' (close g)) = None
   \<and> closePortCalls (output' ((close ^^ n) g)) = closePortCalls (output' g) + n
   \<and> close (close g)
       = (close g)\<lparr>output' := (output' (close g))
            \<lparr>closePortCalls := Suc (closePortCalls (output' (close g)))\<rparr>\<rparr>"
proof -
  have ns: "\<not> running (close g)" by (simp add: close_fields)
  have canc: "running g \<and> timer g = Some t \<longrightarrow> t \<notin> fst ` set (activeIntervals (close g))"
    by (auto simp: close_def Let_def stop_intervals)
  have "(output' (close g))\<lparr>openedPort := None\<rparr> = output' (close g)"
    by (simp add: close_def Let_def closePort_def)
  then have again: "close (close g)
       = (close g)\<lparr>output' := (output' (close g))
            \<lparr>closePortCalls := Suc (closePortCalls (output' (close g)))\<rparr>\<rparr>"
    by (simp add: close_again [OF ns])
  show ?thesis
    using ns canc again by (simp add: close_fields close_calls)
qed

text \<open>
  C9 as first stated fails: two calls of \<open>close\<close> release the output twice, not once.
\<close>

theorem close_twice_releases_twice:
  "closePortCalls (output' (session True 30 1 2 3 4 5)) = 0
   \<and> closePortCalls (output' (close (session True 30 1 2 3 4 5))) = 1
   \<and> closePortCalls (output' (close (close (session True 30 1 2 3 4 5)))) = 2"
  by (simp add: close_fields) (simp add: session_def)

text \<open>Three calls of \<open>close\<close> on a running session.\<close>

theorem close_effect_witness:
  "running (session True 30 1 2 3 4 5) \<and> timer (session True 30 1 2 3 4 5) = Some 0
   \<and> 0 \<notin> fst ` set (activeIntervals (close (session True 30 1 2 3 4 5)))
   \<and> \<not> running (close (session True 30 1 2 3 4 5))
   \<and> closePortCalls (output' ((close ^^ 3) (session True 30 1 2 3 4 5))) = 3"
proof -
  have r: "running (session True 30 1 2 3 4 5) \<and> timer (session True 30 1 2 3 4 5) = Some 0"
    by (simp add: session_def)
  have c: "closePortCalls (output' (session True 30 1 2 3 4 5)) = 0"
    by (simp add: session_def)
  show ?thesis
    using r close_effect [of "session True 30 1 2 3 4 5" 0 3]
    by (simp add: c)
qed

section \<open>Construction\<close>

lemma scanPorts_keeps:
  "portMatches out p \<Longrightarrow> portMatches out (scanPorts out i p)"
proof (induction out i p rule: scanPorts.induct)
  case (1 out i madMapperPort)
  show ?case
  proof (cases "i < getPortCount out")
    case True
    let ?p = "if includes_str (getPortName out i) ''MadMapper In'' then int i else madMapperPort"
    have "portMatches out ?p"
      using "1.prems" True by (simp add: portMatches_def)
    then have "portMatches out (scanPorts out (Suc i) ?p)"
      using "1.IH" True by simp
    then show ?thesis using True by (simp add: scanPorts.simps [of out i])
  next
    case False
    then show ?thesis using "1.prems" by (simp add: scanPorts.simps [of out i])
  qed
qed

lemma scanPorts_finds:
  "\<exists>j\<ge>i. portMatches out (int j) \<Longrightarrow> portMatches out (scanPorts out i p)"
proof (induction out i p rule: scanPorts.induct)
  case (1 out i madMapperPort)
  from "1.prems" obtain j where j: "i \<le> j" "portMatches out (int j)" by blast
  then have lt: "i < getPortCount out" by (simp add: portMatches_def)
  let ?p = "if includes_str (getPortName out i) ''MadMapper In'' then int i else madMapperPort"
  have step: "scanPorts out i madMapperPort = scanPorts out (Suc i) ?p"
    using lt by (simp add: scanPorts.simps [of out i])
  show ?case
  proof (cases "includes_str (getPortName out i) ''MadMapper In''")
    case True
    then have "portMatches out ?p" using lt by (simp add: portMatches_def)
    then show ?thesis unfolding step by (rule scanPorts_keeps)
  next
    case False
    then have "j \<noteq> i" using j(2) by (auto simp: portMatches_def)
    then have "\<exists>j\<ge>Suc i. portMatches out (int j)" using j by (intro exI [of _ j]) simp
    then show ?thesis unfolding step using "1.IH" lt by simp
  qed
qed

text \<open>
  C10. When some listed port has a name that includes \<open>MadMapper In\<close>, the constructor
  returns a generator that is stopped, at 30 frames per second, at 00:00:00:00 with the
  cursor at 0; nothing has been sent or scheduled, and the open port is one whose name
  includes \<open>MadMapper In\<close>.
\<close>

theorem constructor_initial:
  assumes "i < length names" and "includes_str (names ! i) ''MadMapper In''"
  shows "\<exists>g. constructor names = Inr g
           \<and> \<not> running g \<and> frameRate g = 30 \<and> timecode g = (0, 0, 0, 0) \<and> quarterFrame g = 0
           \<and> sentMessages (output' g) = [] \<and> activeIntervals g = []
           \<and> (\<exists>k<length names. openedPort (output' g) = Some k
                  \<and> includes_str (names ! k) ''MadMapper In'')"
proof -
  let ?out = "new_Output names"
  let ?p = "scanPorts ?out 0 (- 1)"
  have "portMatches ?out (int i)"
    using assms by (simp add: portMatches_def getPortCount_def getPortName_def new_Output_def)
  then have "\<exists>j\<ge>0. portMatches ?out (int j)" by blast
  then have m: "portMatches ?out ?p" by (rule scanPorts_finds)
  then have q: "0 \<le> ?p" "nat ?p < getPortCount ?out"
    "includes_str (getPortName ?out (nat ?p)) ''MadMapper In''"
    by (simp_all add: portMatches_def)
  have p2: "nat ?p < length names"
    using q(2) by (simp add: getPortCount_def new_Output_def)
  have p3: "includes_str (names ! nat ?p) ''MadMapper In''"
    using q(3) p2 by (simp add: getPortName_def new_Output_def)
  note p = q(1) p2 p3
  have f: "findAndConnectToMadMapper ?out = Inr (openPort (nat ?p) ?out)"
    using p(1) by (simp add: findAndConnectToMadMapper_def Let_def)
  have c: "constructor names =
             Inr \<lparr>output' = openPort (nat ?p) ?out, running = False, frameRate = 30,
                  hours = 0, minutes = 0, seconds = 0, frames = 0, quarterFrame = 0,
                  timer = None, activeIntervals = [], nextIntervalId = 0\<rparr>"
    by (simp add: constructor_def f)
  have o: "openedPort (openPort (nat ?p) ?out) = Some (nat ?p)"
    "sentMessages (openPort (nat ?p) ?out) = []"
    by (simp_all add: openPort_def new_Output_def)
  show ?thesis
    unfolding c using p(2,3) o by (auto simp: timecode_def)
qed

text \<open>With two ports, the second being MadMapper's.\<close>

theorem constructor_initial_witness:
  "(1::nat) < length [''IAC Driver Bus 1'', ''MadMapper In'']
   \<and> includes_str ([''IAC Driver Bus 1'', ''MadMapper In''] ! 1) ''MadMapper In''
   \<and> (\<exists>g. constructor [''IAC Driver Bus 1'', ''MadMapper In''] = Inr g
           \<and> \<not> running g \<and> frameRate g = 30 \<and> timecode g = (0, 0, 0, 0) \<and> quarterFrame g = 0)"
proof -
  have a: "(1::nat) < length [''IAC Driver Bus 1'', ''MadMapper In'']" by simp
  have b: "includes_str ([''IAC Driver Bus 1'', ''MadMapper In''] ! 1) ''MadMapper In''" by simp
  show ?thesis
    using a b constructor_initial [OF a b] by blast
qed

text \<open>Without such a port the constructor throws.\<close>

lemma constructor_not_found:
  "constructor [''IAC Driver Bus 1''] = Inl (Error ''MadMapper MIDI input port not found'')"
  by (simp add: constructor_def findAndConnectToMadMapper_def new_Output_def
      getPortCount_def getPortName_def scanPorts.simps)

end
